theory Spec2Isabelle
  imports Main "HOL-Library.Word"
begin

section \<open>ECMAScript strings\<close>

text \<open>
  The extractors of \<^verbatim>\<open>textExtractorService\<close> work on ECMAScript strings: finite
  sequences of 16-bit code units. \<open>js\<close> embeds an ASCII literal.
\<close>

type_synonym code_unit = "16 word"
type_synonym jsstring = "code_unit list"

definition js :: "string \<Rightarrow> jsstring" where
  "js s = map (\<lambda>c. of_nat (of_char c)) s"

text \<open>
  \<^verbatim>\<open>String.prototype.trim\<close> removes WhiteSpace and LineTerminator code points from
  both ends: TAB, VT, FF, SP, NBSP, ZWNBSP, the category Zs, and LF, CR, LS, PS.
\<close>

definition is_line_terminator :: "code_unit \<Rightarrow> bool" where
  "is_line_terminator c = (c = 0x0A \<or> c = 0x0D \<or> c = 0x2028 \<or> c = 0x2029)"

definition is_white_space :: "code_unit \<Rightarrow> bool" where
  "is_white_space c =
     (is_line_terminator c \<or> c = 0x09 \<or> c = 0x0B \<or> c = 0x0C \<or> c = 0x20 \<or> c = 0xA0
      \<or> c = 0x1680 \<or> (0x2000 \<le> c \<and> c \<le> 0x200A) \<or> c = 0x202F \<or> c = 0x205F
      \<or> c = 0x3000 \<or> c = 0xFEFF)"

definition trim :: "jsstring \<Rightarrow> jsstring" where
  "trim s = rev (dropWhile is_white_space (rev (dropWhile is_white_space s)))"

text \<open>
  \<^verbatim>\<open>s.split(sep)\<close> with a one-character separator and no limit: one piece more than
  there are separators, so the empty string gives one empty piece.
\<close>

fun split_on :: "code_unit \<Rightarrow> jsstring \<Rightarrow> jsstring list" where
  "split_on sep [] = [[]]"
| "split_on sep (c # cs) =
     (let ps = split_on sep cs
      in if c = sep then [] # ps else (c # hd ps) # tl ps)"

text \<open>
  \<^verbatim>\<open>text.split("\n").filter((line) => line.trim())\<close>: the callback's result is
  truthy exactly when the trimmed line is not the empty string.
\<close>

definition nonblank_lines :: "jsstring \<Rightarrow> jsstring list" where
  "nonblank_lines text = filter (\<lambda>line. trim line \<noteq> []) (split_on 0x0A text)"

text \<open>
  Reading an array element gives \<^verbatim>\<open>undefined\<close> (\<open>None\<close>) out of range, and
  \<^verbatim>\<open>a || b\<close> on a string-or-undefined \<open>a\<close> gives \<open>b\<close> when \<open>a\<close> is
  \<^verbatim>\<open>undefined\<close> or the empty string.
\<close>

definition element :: "'a list \<Rightarrow> nat \<Rightarrow> 'a option" where
  "element xs i = (if i < length xs then Some (xs ! i) else None)"

definition js_or :: "jsstring option \<Rightarrow> jsstring \<Rightarrow> jsstring" where
  "js_or a b = (case a of None \<Rightarrow> b | Some s \<Rightarrow> if s = [] then b else s)"

text \<open>\<^verbatim>\<open>Number.prototype.toString\<close> on a non-negative integer: its decimal digits.\<close>

fun toString :: "nat \<Rightarrow> jsstring" where
  "toString n =
     (if n < 10 then [of_nat (48 + n)]
      else toString (n div 10) @ [of_nat (48 + n mod 10)])"

declare toString.simps [simp del]

section \<open>Ordinary objects used as dictionaries\<close>

text \<open>
  \<^verbatim>\<open>Record<string, T>\<close> values are ordinary objects created by \<^verbatim>\<open>{}\<close>. The
  model keeps the own enumerable properties as a list in the order in which
  \<^verbatim>\<open>Object.keys\<close> and \<^verbatim>\<open>Object.entries\<close> enumerate them: the keys that are
  array indices (canonical decimal numerals below \<open>2\<^sup>3\<^sup>2 - 1\<close>) in ascending numeric
  order, then the other keys in the order of their creation.
\<close>

type_synonym 'v jsobject = "(jsstring \<times> 'v) list"

definition dec_val :: "jsstring \<Rightarrow> nat" where
  "dec_val k = foldl (\<lambda>n c. 10 * n + unat (c - 0x30)) 0 k"

definition array_index :: "jsstring \<Rightarrow> nat option" where
  "array_index k =
     (if k \<noteq> [] \<and> list_all (\<lambda>c. 0x30 \<le> c \<and> c \<le> 0x39) k
         \<and> toString (dec_val k) = k \<and> dec_val k < 4294967295
      then Some (dec_val k) else None)"

fun insert_index :: "nat \<Rightarrow> jsstring \<Rightarrow> 'v \<Rightarrow> 'v jsobject \<Rightarrow> 'v jsobject" where
  "insert_index n k v [] = [(k, v)]"
| "insert_index n k v ((k', v') # rest) =
     (case array_index k' of
        Some m \<Rightarrow> if m < n then (k', v') # insert_index n k v rest
                  else (k, v) # (k', v') # rest
      | None \<Rightarrow> (k, v) # (k', v') # rest)"

text \<open>
  Writing an own data property: an existing property keeps its place and takes the new
  value, a new one is created at its place in the enumeration order.
\<close>

definition define_own :: "jsstring \<Rightarrow> 'v \<Rightarrow> 'v jsobject \<Rightarrow> 'v jsobject" where
  "define_own k v obj =
     (if k \<in> set (map fst obj)
      then map (\<lambda>(k', v'). if k' = k then (k', v) else (k', v')) obj
      else case array_index k of
             Some n \<Rightarrow> insert_index n k v obj
           | None \<Rightarrow> obj @ [(k, v)])"

text \<open>
  An object created by \<^verbatim>\<open>{}\<close> inherits the accessor \<^verbatim>\<open>__proto__\<close> from
  \<^verbatim>\<open>Object.prototype\<close>, so the assignment \<^verbatim>\<open>obj["__proto__"] = v\<close> calls that
  setter and creates no own property. With a string \<open>v\<close> (the rows) the setter does
  nothing.
\<close>

definition proto_key :: jsstring where
  "proto_key = js ''__proto__''"

type_synonym row = "jsstring jsobject"

definition row_set :: "row \<Rightarrow> jsstring \<Rightarrow> jsstring \<Rightarrow> row" where
  "row_set row k v = (if k = proto_key then row else define_own k v row)"

section \<open>The delimited-text extractor\<close>

text \<open>
  Both extractors return a promise. It is modelled by its outcome: \<open>Inr\<close> of the rows
  when it is resolved, \<open>Inl\<close> of the error when it is rejected. Their argument \<open>text\<close>
  is the string that the \<^verbatim>\<open>FileReader\<close> hands to \<^verbatim>\<open>onload\<close>; a read that fails
  rejects the promise before any of the code below runs.
\<close>

datatype error = Error jsstring

text \<open>
  \<^verbatim>\<open>(h) => h.trim().replace(/"/g, "")\<close>, and a line split at its commas with every
  piece treated so, as the source does for the header and for each later line.
\<close>

definition cell :: "jsstring \<Rightarrow> jsstring" where
  "cell h = filter (\<lambda>c. c \<noteq> 0x22) (trim h)"

definition cells :: "jsstring \<Rightarrow> jsstring list" where
  "cells line = map cell (split_on 0x2C line)"

text \<open>
  \<^verbatim>\<open>headers.forEach((header, index) => { row[header] = values[index] || ""; })\<close>
  on a fresh row.
\<close>

definition csv_row :: "jsstring list \<Rightarrow> jsstring list \<Rightarrow> row" where
  "csv_row headers vals =
     foldl (\<lambda>row (index, header). row_set row header (js_or (element vals index) []))
       [] (enumerate 0 headers)"

text \<open>The loop over the lines after the header, pushing one row per line.\<close>

fun data_rows :: "jsstring list \<Rightarrow> jsstring list \<Rightarrow> row list \<Rightarrow> row list" where
  "data_rows headers [] data = data"
| "data_rows headers (line # rest) data =
     data_rows headers rest (data @ [csv_row headers (cells line)])"

definition extractDataFromCsv :: "jsstring \<Rightarrow> error + row list" where
  "extractDataFromCsv text =
     (let lines = nonblank_lines text
      in if length lines = 0 then Inl (Error (js ''Empty CSV file''))
         else let headers = cells (lines ! 0)
              in Inr (data_rows headers (drop 1 lines) []))"

section \<open>Regular expressions\<close>

text \<open>
  A regular-expression object is kept as the arguments of its constructor. The matcher
  belongs to the language runtime, not to this program, so it is a parameter:
  \<open>valid src fl\<close> says that \<^verbatim>\<open>new RegExp(src, fl)\<close> returns instead of throwing
  a \<^verbatim>\<open>SyntaxError\<close>, and \<open>exec r s\<close> is the result of \<^verbatim>\<open>s.match(r)\<close> for a
  regular expression without the flags \<^verbatim>\<open>g\<close> and \<^verbatim>\<open>y\<close> (no other is built here):
  \<^verbatim>\<open>null\<close>, or the array of the matched substring followed by one entry per capture
  group, \<^verbatim>\<open>undefined\<close> for a group that took no part in the match. Such a match
  neither reads nor writes \<^verbatim>\<open>lastIndex\<close>, so it is a function of its arguments.
\<close>

datatype regexp = RegExp (source: jsstring) (flags: jsstring)

datatype match = Match (whole: jsstring) (groups: "jsstring option list")

record engine =
  valid :: "jsstring \<Rightarrow> jsstring \<Rightarrow> bool"
  exec :: "regexp \<Rightarrow> jsstring \<Rightarrow> match option"

datatype exn = SyntaxError | TypeError

definition new_RegExp :: "engine \<Rightarrow> jsstring \<Rightarrow> jsstring \<Rightarrow> exn + regexp" where
  "new_RegExp eng src fl = (if valid eng src fl then Inr (RegExp src fl) else Inl SyntaxError)"

text \<open>
  The one literal of the source, \<^verbatim>\<open>/(.+)/\<close>, has its meaning written out: without
  the flag \<^verbatim>\<open>s\<close> the dot matches every code unit but the line terminators, the
  quantifier is greedy and the leftmost match wins, so the match is the first maximal
  run of such code units, and the group captures all of it.
\<close>

definition default_regexp :: regexp where
  "default_regexp = RegExp (js ''(.+)'') []"

definition dot_plus :: "jsstring \<Rightarrow> match option" where
  "dot_plus s =
     (let m = takeWhile (\<lambda>c. \<not> is_line_terminator c) (dropWhile is_line_terminator s)
      in if m = [] then None else Some (Match m [Some m]))"

definition String_match :: "engine \<Rightarrow> jsstring \<Rightarrow> regexp \<Rightarrow> match option" where
  "String_match eng line r = (if r = default_regexp then dot_plus line else exec eng r line)"

text \<open>\<^verbatim>\<open>match[1] || match[0]\<close>\<close>

definition match_value :: "match \<Rightarrow> jsstring" where
  "match_value m =
     js_or (case element (groups m) 0 of None \<Rightarrow> None | Some g \<Rightarrow> g) (whole m)"

section \<open>The pattern specification parser\<close>

text \<open>
  The object \<^verbatim>\<open>patterns\<close>. Assigning a regular expression to its key
  \<^verbatim>\<open>__proto__\<close> calls the inherited setter, which makes that regular expression the
  prototype of \<^verbatim>\<open>patterns\<close> and creates no own property. From then on
  \<^verbatim>\<open>patterns\<close> inherits the accessors of \<^verbatim>\<open>RegExp.prototype\<close>, which have no
  setter: assigning to one of their names, in the strict code of a module, throws a
  \<^verbatim>\<open>TypeError\<close> (the list is that of ECMAScript 2024).
\<close>

record pattern_object =
  own :: "regexp jsobject"
  proto_regexp :: bool

definition RegExp_prototype_accessors :: "jsstring list" where
  "RegExp_prototype_accessors =
     map js [''dotAll'', ''flags'', ''global'', ''hasIndices'', ''ignoreCase'',
             ''multiline'', ''source'', ''sticky'', ''unicode'', ''unicodeSets'']"

definition patterns_set :: "pattern_object \<Rightarrow> jsstring \<Rightarrow> regexp \<Rightarrow> exn + pattern_object" where
  "patterns_set p k r =
     (if k \<in> set (map fst (own p)) then Inr (p\<lparr>own := define_own k r (own p)\<rparr>)
      else if k = proto_key then Inr (p\<lparr>proto_regexp := True\<rparr>)
      else if proto_regexp p \<and> k \<in> set RegExp_prototype_accessors then Inl TypeError
      else Inr (p\<lparr>own := define_own k r (own p)\<rparr>))"

text \<open>
  \<^verbatim>\<open>const [fieldName, pattern] = line.split(":").map((s) => s.trim())\<close> followed by
  the test \<^verbatim>\<open>fieldName && pattern\<close>: the first two pieces, when both are there and
  neither is empty.
\<close>

definition line_fields :: "jsstring \<Rightarrow> (jsstring \<times> jsstring) option" where
  "line_fields line =
     (let parts = map trim (split_on 0x3A line)
      in case (element parts 0, element parts 1) of
           (Some fieldName, Some pattern) \<Rightarrow>
              if fieldName \<noteq> [] \<and> pattern \<noteq> [] then Some (fieldName, pattern) else None
         | _ \<Rightarrow> None)"

text \<open>The console, the one thing outside a call that the module writes to.\<close>

type_synonym console = "jsstring list"

definition warning :: "jsstring \<Rightarrow> jsstring \<Rightarrow> jsstring" where
  "warning fieldName pattern =
     js ''Invalid regex pattern for '' @ fieldName @ js '': '' @ pattern"

text \<open>
  The body of \<^verbatim>\<open>lines.forEach\<close> in \<^verbatim>\<open>parsePatterns\<close>: the \<^verbatim>\<open>try\<close> block
  holds the construction and the assignment, and the \<^verbatim>\<open>catch\<close> only warns.
\<close>

definition parse_step :: "engine \<Rightarrow> pattern_object \<times> console \<Rightarrow> jsstring \<Rightarrow> pattern_object \<times> console" where
  "parse_step eng st line =
     (case line_fields line of
        None \<Rightarrow> st
      | Some (fieldName, pattern) \<Rightarrow>
          (case new_RegExp eng pattern (js ''i'') of
             Inl e \<Rightarrow> (fst st, snd st @ [warning fieldName pattern])
           | Inr r \<Rightarrow>
               (case patterns_set (fst st) fieldName r of
                  Inl e \<Rightarrow> (fst st, snd st @ [warning fieldName pattern])
                | Inr p \<Rightarrow> (p, snd st))))"

definition text_key :: jsstring where
  "text_key = js ''text''"

definition parsePatterns :: "engine \<Rightarrow> console \<Rightarrow> jsstring \<Rightarrow> pattern_object \<times> console" where
  "parsePatterns eng con patternString =
     (let lines = nonblank_lines patternString;
          st = foldl (parse_step eng) (\<lparr>own = [], proto_regexp = False\<rparr>, con) lines
      in if length (map fst (own (fst st))) = 0
         then ((fst st)\<lparr>own := define_own text_key default_regexp (own (fst st))\<rparr>, snd st)
         else st)"

section \<open>The line-oriented pattern extractor\<close>

text \<open>
  \<^verbatim>\<open>Object.entries(patternMap).forEach\<close> on one line: the row and the flag
  \<^verbatim>\<open>foundData\<close>.
\<close>

definition pattern_step :: "engine \<Rightarrow> jsstring \<Rightarrow> row \<times> bool \<Rightarrow> jsstring \<times> regexp \<Rightarrow> row \<times> bool" where
  "pattern_step eng line st entry =
     (case String_match eng line (snd entry) of
        Some m \<Rightarrow> (row_set (fst st) (fst entry) (match_value m), True)
      | None \<Rightarrow> st)"

definition apply_patterns :: "engine \<Rightarrow> regexp jsobject \<Rightarrow> jsstring \<Rightarrow> row \<times> bool" where
  "apply_patterns eng entries line = foldl (pattern_step eng line) ([], False) entries"

definition line_number_key :: jsstring where
  "line_number_key = js ''line_number''"

definition raw_text_key :: jsstring where
  "raw_text_key = js ''raw_text''"

definition line_step :: "engine \<Rightarrow> regexp jsobject \<Rightarrow> row list \<Rightarrow> nat \<times> jsstring \<Rightarrow> row list" where
  "line_step eng entries extractedData il =
     (let (row, foundData) = apply_patterns eng entries (snd il)
      in if foundData
         then extractedData @
              [row_set (row_set row line_number_key (toString (fst il + 1))) raw_text_key (snd il)]
         else extractedData)"

definition extractDataFromText ::
  "engine \<Rightarrow> console \<Rightarrow> jsstring \<Rightarrow> jsstring \<Rightarrow> (error + row list) \<times> console" where
  "extractDataFromText eng con text patterns =
     (let lines = nonblank_lines text
      in if length lines = 0 then (Inl (Error (js ''Empty file'')), con)
         else let (patternMap, con') = parsePatterns eng con patterns
              in (Inr (foldl (line_step eng (own patternMap)) [] (enumerate 0 lines)), con'))"

section \<open>Notions used in the statements\<close>

text \<open>
  The entry that one line of the specification contributes: the two fields that
  \<open>line_fields\<close> finds, when \<^verbatim>\<open>new RegExp(pattern, "i")\<close> returns; and the entries of
  a whole specification text, in the order of its lines.
\<close>

definition line_entry :: "engine \<Rightarrow> jsstring \<Rightarrow> (jsstring \<times> regexp) option" where
  "line_entry eng line =
     (case line_fields line of
        None \<Rightarrow> None
      | Some (fieldName, pattern) \<Rightarrow>
          if valid eng pattern (js ''i'') then Some (fieldName, RegExp pattern (js ''i'')) else None)"

definition compiled_entries :: "engine \<Rightarrow> jsstring \<Rightarrow> (jsstring \<times> regexp) list" where
  "compiled_entries eng patternString = List.map_filter (line_entry eng) (nonblank_lines patternString)"

text \<open>
  What the \<^verbatim>\<open>try\<close> block does to \<^verbatim>\<open>patterns\<close> for one such entry: the assignment,
  or nothing when the assignment throws.
\<close>

definition assign_entry :: "pattern_object \<Rightarrow> jsstring \<times> regexp \<Rightarrow> pattern_object" where
  "assign_entry p e = (case patterns_set p (fst e) (snd e) of Inl x \<Rightarrow> p | Inr p' \<Rightarrow> p')"

text \<open>The elements of a list in the order of their first occurrences.\<close>

definition first_occurrences :: "'a list \<Rightarrow> 'a list" where
  "first_occurrences xs = rev (remdups (rev xs))"

text \<open>A line is matched when some entry of the pattern map matches it.\<close>

definition matched :: "engine \<Rightarrow> regexp jsobject \<Rightarrow> jsstring \<Rightarrow> bool" where
  "matched eng entries line = list_ex (\<lambda>e. String_match eng line (snd e) \<noteq> None) entries"


section \<open>A matcher for worked examples\<close>

text \<open>
  The examples need one concrete matcher. \<open>sample_engine\<close> implements the fragment of
  the pattern language made of a literal of lower-case ASCII letters and digits,
  optionally followed by one parenthesised literal of the same kind (possibly empty),
  under the flag \<^verbatim>\<open>i\<close>: the leftmost occurrence of the two literals in a row,
  ASCII letters compared without case, the group capturing the text of the second. It
  refuses every pattern outside the fragment, so the examples compile patterns of the
  fragment only; the one pattern they use as an invalid one, a single opening
  parenthesis, is a syntax error for every matcher.
\<close>

definition is_lit :: "code_unit \<Rightarrow> bool" where
  "is_lit c = ((0x30 \<le> c \<and> c \<le> 0x39) \<or> (0x61 \<le> c \<and> c \<le> 0x7A))"

definition parse_fragment :: "jsstring \<Rightarrow> (jsstring \<times> jsstring option) option" where
  "parse_fragment src =
     (let l = takeWhile is_lit src; rest = dropWhile is_lit src
      in if rest = [] then Some (l, None)
         else if 2 \<le> length rest \<and> hd rest = 0x28 \<and> last rest = 0x29
                 \<and> list_all is_lit (butlast (tl rest))
              then Some (l, Some (butlast (tl rest)))
              else None)"

definition ci_eq :: "code_unit \<Rightarrow> code_unit \<Rightarrow> bool" where
  "ci_eq x s = (x = s \<or> (0x61 \<le> s \<and> s \<le> 0x7A \<and> x = s - 0x20))"

fun first_match :: "jsstring \<Rightarrow> jsstring \<Rightarrow> jsstring option" where
  "first_match lit [] = (if lit = [] then Some [] else None)"
| "first_match lit (c # cs) =
     (if length lit \<le> length (c # cs) \<and> list_all2 ci_eq (take (length lit) (c # cs)) lit
      then Some (c # cs) else first_match lit cs)"

definition sample_exec :: "regexp \<Rightarrow> jsstring \<Rightarrow> match option" where
  "sample_exec r line =
     (case parse_fragment (source r) of
        None \<Rightarrow> None
      | Some (l, g) \<Rightarrow>
          (let lit = l @ (case g of None \<Rightarrow> [] | Some m \<Rightarrow> m)
           in case first_match lit line of
                None \<Rightarrow> None
              | Some rest \<Rightarrow>
                  Some (Match (take (length lit) rest)
                         (case g of
                            None \<Rightarrow> []
                          | Some m \<Rightarrow> [Some (take (length m) (drop (length l) rest))]))))"

definition sample_engine :: engine where
  "sample_engine =
     \<lparr>valid = (\<lambda>src fl. parse_fragment src \<noteq> None \<and> fl = js ''i''), exec = sample_exec\<rparr>"

section \<open>Strings and objects\<close>

lemma split_on_not_Nil: "split_on sep s \<noteq> []"
  by (induction s) (auto simp: Let_def)

lemma keys_insert_index: "set (map fst (insert_index n k v obj)) = insert k (set (map fst obj))"
  by (induction obj) (force split: option.splits)+

lemma distinct_insert_index:
  "k \<notin> set (map fst obj) \<Longrightarrow> distinct (map fst obj) \<Longrightarrow> distinct (map fst (insert_index n k v obj))"
proof (induction obj)
  case Nil
  then show ?case by simp
next
  case (Cons a obj)
  obtain k' v' where a: "a = (k', v')" by (cases a)
  from Cons have "distinct (map fst (insert_index n k v obj))" by simp
  moreover have "k' \<notin> set (map fst (insert_index n k v obj))"
    using Cons.prems a unfolding keys_insert_index by auto
  ultimately show ?case using Cons.prems a by (auto split: option.splits)
qed

lemma map_of_insert_index:
  "k \<notin> set (map fst obj) \<Longrightarrow> map_of (insert_index n k v obj) = (map_of obj)(k \<mapsto> v)"
  by (induction obj) (auto split: option.splits simp: fun_upd_twist)

lemma map_of_update_in_place:
  "map_of (map (\<lambda>(k', v'). if k' = k then (k', v) else (k', v')) obj) =
     (if k \<in> set (map fst obj) then (map_of obj)(k \<mapsto> v) else map_of obj)"
  by (induction obj) (auto simp: fun_upd_twist)

lemma keys_update_in_place:
  "map fst (map (\<lambda>(k', v'). if k' = k then (k', v) else (k', v')) obj) = map fst obj"
  by (induction obj) auto

lemma keys_define_own: "set (map fst (define_own k v obj)) = insert k (set (map fst obj))"
  unfolding define_own_def
  by (auto simp: keys_update_in_place keys_insert_index simp del: set_map map_map split: option.splits)

lemma distinct_define_own:
  "distinct (map fst obj) \<Longrightarrow> distinct (map fst (define_own k v obj))"
  unfolding define_own_def
  by (auto simp: keys_update_in_place distinct_insert_index simp del: map_map split: option.splits)

lemma map_of_snoc:
  "k \<notin> set (map fst obj) \<Longrightarrow> map_of (obj @ [(k, v)]) = (map_of obj)(k \<mapsto> v)"
proof (rule ext)
  fix x
  assume "k \<notin> set (map fst obj)"
  then have "map_of obj k = None" by (simp add: map_of_eq_None_iff)
  then show "map_of (obj @ [(k, v)]) x = ((map_of obj)(k \<mapsto> v)) x"
    by (cases "map_of obj x") (auto simp: map_add_def)
qed

lemma map_of_define_own: "map_of (define_own k v obj) = (map_of obj)(k \<mapsto> v)"
proof (cases "k \<in> set (map fst obj)")
  case True
  then show ?thesis by (simp add: define_own_def map_of_update_in_place del: set_map)
next
  case False
  then show ?thesis
    by (cases "array_index k")
       (simp_all add: define_own_def map_of_insert_index map_of_snoc del: set_map map_of_append)
qed


lemma define_own_Nil: "define_own k v [] = [(k, v)]"
  by (simp add: define_own_def split: option.splits)

section \<open>Rows of the delimited-text extractor\<close>

lemma data_rows_eq:
  "data_rows hs ls data = data @ map (\<lambda>line. csv_row hs (cells line)) ls"
  by (induction ls arbitrary: data) auto

lemma csv_row_snoc:
  "csv_row (hs @ [h]) vs = row_set (csv_row hs vs) h (js_or (element vs (length hs)) [])"
  by (simp add: csv_row_def enumerate_append_eq)

lemma csv_row_Nil: "csv_row [] vs = []"
  by (simp add: csv_row_def)

lemma js_or_element: "js_or (element vs i) [] = (if i < length vs then vs ! i else [])"
  by (simp add: js_or_def element_def)

lemma keys_row_set:
  "set (map fst (row_set row k v)) = (if k = proto_key then set (map fst row) else insert k (set (map fst row)))"
  by (simp add: row_set_def keys_define_own del: set_map)

lemma distinct_row_set: "distinct (map fst row) \<Longrightarrow> distinct (map fst (row_set row k v))"
  by (simp add: row_set_def distinct_define_own)

lemma map_of_row_set:
  "map_of (row_set row k v) = (if k = proto_key then map_of row else (map_of row)(k \<mapsto> v))"
  by (simp add: row_set_def map_of_define_own)

lemma keys_csv_row: "set (map fst (csv_row hs vs)) = set hs - {proto_key}"
  by (induction hs rule: rev_induct) (auto simp: csv_row_Nil csv_row_snoc keys_row_set simp del: set_map)

lemma distinct_csv_row: "distinct (map fst (csv_row hs vs))"
  by (induction hs rule: rev_induct) (simp_all add: csv_row_Nil csv_row_snoc distinct_row_set)

lemma map_of_csv_row:
  "i < length hs \<Longrightarrow> hs ! i \<noteq> proto_key \<Longrightarrow> hs ! i \<notin> set (drop (Suc i) hs) \<Longrightarrow>
   map_of (csv_row hs vs) (hs ! i) = Some (js_or (element vs i) [])"
proof (induction hs rule: rev_induct)
  case Nil
  then show ?case by simp
next
  case (snoc h hs)
  show ?case
  proof (cases "i = length hs")
    case True
    with snoc.prems show ?thesis by (simp add: csv_row_snoc map_of_row_set)
  next
    case False
    with snoc.prems have i: "i < length hs" by simp
    with snoc.prems have "hs ! i \<noteq> proto_key" "hs ! i \<notin> set (drop (Suc i) hs)" "hs ! i \<noteq> h"
      by (auto simp: nth_append)
    with snoc.IH i show ?thesis by (simp add: csv_row_snoc map_of_row_set nth_append)
  qed
qed

lemma csv_row_take: "length hs \<le> n \<Longrightarrow> csv_row hs (take n vs) = csv_row hs vs"
  by (induction hs rule: rev_induct) (simp_all add: csv_row_Nil csv_row_snoc element_def)

lemma extractDataFromCsv_rows:
  "nonblank_lines text = l0 # ls \<Longrightarrow>
   extractDataFromCsv text =
     Inr (map (\<lambda>line. csv_row (cells l0) (cells line)) ls)"
  by (simp add: extractDataFromCsv_def data_rows_eq)

lemma extractDataFromCsv_empty:
  "nonblank_lines text = [] \<Longrightarrow> extractDataFromCsv text = Inl (Error (js ''Empty CSV file''))"
  by (simp add: extractDataFromCsv_def)

section \<open>The pattern map\<close>

lemma fst_parse_step:
  "fst (parse_step eng st line) =
     (case line_entry eng line of None \<Rightarrow> fst st | Some e \<Rightarrow> assign_entry (fst st) e)"
  by (auto simp: parse_step_def line_entry_def assign_entry_def new_RegExp_def
           split: option.splits sum.splits)

lemma fst_foldl_parse_step:
  "fst (foldl (parse_step eng) st lines) =
     foldl assign_entry (fst st) (List.map_filter (line_entry eng) lines)"
proof (induction lines arbitrary: st)
  case Nil
  then show ?case by (simp add: map_filter_simps)
next
  case (Cons line lines)
  show ?case
    by (cases "line_entry eng line") (simp_all add: Cons.IH fst_parse_step map_filter_simps)
qed

lemma fst_parsePatterns:
  "fst (parsePatterns eng con patternString) =
     (let p = foldl assign_entry \<lparr>own = [], proto_regexp = False\<rparr> (compiled_entries eng patternString)
      in if own p = [] then p\<lparr>own := [(text_key, default_regexp)]\<rparr> else p)"
  by (simp add: parsePatterns_def Let_def fst_foldl_parse_step compiled_entries_def define_own_Nil)

lemma assign_entry_inv:
  assumes "distinct (map fst (own p))" "proto_key \<notin> set (map fst (own p))"
  shows "distinct (map fst (own (assign_entry p e))) \<and> proto_key \<notin> set (map fst (own (assign_entry p e)))"
  using assms
  by (auto simp: assign_entry_def patterns_set_def distinct_define_own keys_define_own
           simp del: set_map)

lemma foldl_assign_entry_inv:
  "distinct (map fst (own p)) \<Longrightarrow> proto_key \<notin> set (map fst (own p)) \<Longrightarrow>
   distinct (map fst (own (foldl assign_entry p es))) \<and>
   proto_key \<notin> set (map fst (own (foldl assign_entry p es)))"
proof (induction es arbitrary: p)
  case Nil
  then show ?case by simp
next
  case (Cons e es)
  from assign_entry_inv [OF Cons.prems] show ?case
    by (simp add: Cons.IH del: set_map)
qed

lemma text_key_not_proto: "text_key \<noteq> proto_key"
  by (simp add: text_key_def proto_key_def js_def)

lemma parsePatterns_inv:
  "distinct (map fst (own (fst (parsePatterns eng con patternString)))) \<and>
   proto_key \<notin> set (map fst (own (fst (parsePatterns eng con patternString))))"
  using foldl_assign_entry_inv [of "\<lparr>own = [], proto_regexp = False\<rparr>" "compiled_entries eng patternString"]
  by (simp add: fst_parsePatterns Let_def text_key_not_proto [symmetric] del: set_map)

lemma assign_entry_plain:
  "\<not> proto_regexp p \<Longrightarrow> fst e \<noteq> proto_key \<Longrightarrow>
   assign_entry p e = p\<lparr>own := define_own (fst e) (snd e) (own p)\<rparr>"
  by (simp add: assign_entry_def patterns_set_def)

lemma foldl_assign_entry_plain:
  "\<not> proto_regexp p \<Longrightarrow> proto_key \<notin> fst ` set es \<Longrightarrow>
   foldl assign_entry p es = p\<lparr>own := foldl (\<lambda>obj e. define_own (fst e) (snd e) obj) (own p) es\<rparr>"
proof (induction es arbitrary: p)
  case Nil
  then show ?case by simp
next
  case (Cons e es)
  from Cons.prems have "fst e \<noteq> proto_key" by auto
  with Cons.prems have e: "assign_entry p e = p\<lparr>own := define_own (fst e) (snd e) (own p)\<rparr>"
    by (simp add: assign_entry_plain)
  from Cons.prems show ?case
    by (simp add: e Cons.IH)
qed

lemma keys_foldl_define_own:
  "set (map fst (foldl (\<lambda>obj e. define_own (fst e) (snd e) obj) obj es)) = set (map fst obj) \<union> fst ` set es"
  by (induction es arbitrary: obj) (auto simp: keys_define_own simp del: set_map)

lemma set_insert_index: "set (insert_index n k v obj) = insert (k, v) (set obj)"
  by (induction obj) (force split: option.splits)+

lemma set_define_own: "set (define_own k v obj) \<subseteq> insert (k, v) (set obj)"
  by (auto simp: define_own_def set_insert_index split: option.splits if_splits)

lemma set_foldl_define_own:
  "set (foldl (\<lambda>obj e. define_own (fst e) (snd e) obj) obj es) \<subseteq> set obj \<union> set es"
proof (induction es arbitrary: obj)
  case Nil
  then show ?case by simp
next
  case (Cons e es)
  have "set (define_own (fst e) (snd e) obj) \<subseteq> insert e (set obj)"
    using set_define_own [of "fst e" "snd e" obj] by simp
  with Cons.IH [of "define_own (fst e) (snd e) obj"] show ?case by auto
qed

lemma in_set_map_filter: "y \<in> set (List.map_filter f xs) \<longleftrightarrow> (\<exists>x \<in> set xs. f x = Some y)"
  by (induction xs) (auto split: option.splits)

lemma line_entry_flags: "line_entry eng line = Some (k, r) \<Longrightarrow> flags r = js ''i''"
  by (cases "line_fields line") (auto simp: line_entry_def split: if_splits)

lemma compiled_entries_flags: "(k, r) \<in> set (compiled_entries eng patternString) \<Longrightarrow> flags r = js ''i''"
  by (auto simp: compiled_entries_def in_set_map_filter dest: line_entry_flags)

section \<open>Order of the keys\<close>



lemma distinct_first_occurrences: "distinct (first_occurrences xs)"
  by (simp add: first_occurrences_def)


section \<open>The patterns applied to one line\<close>

lemma snd_foldl_pattern_step:
  "snd (foldl (pattern_step eng line) st es) = (snd st \<or> matched eng es line)"
  by (induction es arbitrary: st) (auto simp: pattern_step_def matched_def split: option.splits)

lemma snd_apply_patterns: "snd (apply_patterns eng es line) = matched eng es line"
  by (simp add: apply_patterns_def snd_foldl_pattern_step)

lemma map_of_foldl_pattern_step:
  "distinct (map fst es) \<Longrightarrow> proto_key \<notin> set (map fst es) \<Longrightarrow>
   map_of (fst (foldl (pattern_step eng line) st es)) k =
     (case map_of es k of
        None \<Rightarrow> map_of (fst st) k
      | Some r \<Rightarrow> (case String_match eng line r of
                     None \<Rightarrow> map_of (fst st) k
                   | Some m \<Rightarrow> Some (match_value m)))"
proof (induction es arbitrary: st)
  case Nil
  then show ?case by simp
next
  case (Cons e es)
  obtain a r where e: "e = (a, r)" by (cases e)
  from Cons.prems e have d: "distinct (map fst es)" "proto_key \<notin> set (map fst es)"
    "a \<noteq> proto_key" "a \<notin> set (map fst es)" by auto
  from d(4) have none: "map_of es a = None" by (simp add: map_of_eq_None_iff)
  show ?case
  proof (cases "String_match eng line r")
    case None
    then have st': "pattern_step eng line st (a, r) = st" by (simp add: pattern_step_def)
    show ?thesis using Cons.IH [OF d(1,2), of st] None none
      by (auto simp: e st' split: option.splits)
  next
    case (Some m)
    then have st': "pattern_step eng line st (a, r) = (row_set (fst st) a (match_value m), True)"
      by (simp add: pattern_step_def)
    show ?thesis using Cons.IH [OF d(1,2), of "(row_set (fst st) a (match_value m), True)"] Some none d(3)
      by (auto simp: e st' map_of_row_set split: option.splits)
  qed
qed

lemma map_of_apply_patterns:
  assumes "distinct (map fst es)" "proto_key \<notin> set (map fst es)" "(k, r) \<in> set es"
  shows "map_of (fst (apply_patterns eng es line)) k =
           (case String_match eng line r of None \<Rightarrow> None | Some m \<Rightarrow> Some (match_value m))"
proof -
  from assms(1,3) have "map_of es k = Some r" by simp
  with map_of_foldl_pattern_step [OF assms(1,2), of eng line "([], False)" k] show ?thesis
    by (simp add: apply_patterns_def split: option.splits)
qed




section \<open>The loop over the lines, and the default pattern\<close>

lemma line_step_eq:
  "line_step eng es acc (i, l) =
     acc @ (if matched eng es l
            then [row_set (row_set (fst (apply_patterns eng es l)) line_number_key (toString (i + 1)))
                    raw_text_key l]
            else [])"
  using snd_apply_patterns [of eng es l]
  by (cases "apply_patterns eng es l") (simp add: line_step_def)

lemma foldl_line_step:
  "foldl (line_step eng es) acc (enumerate i ls) =
     acc @ map (\<lambda>(i, l). row_set (row_set (fst (apply_patterns eng es l)) line_number_key (toString (i + 1)))
                          raw_text_key l)
             (filter (\<lambda>(i, l). matched eng es l) (enumerate i ls))"
  by (induction ls arbitrary: acc i) (simp_all add: line_step_eq)

lemma extractDataFromText_empty:
  "nonblank_lines text = [] \<Longrightarrow>
   extractDataFromText eng con text patterns = (Inl (Error (js ''Empty file'')), con)"
  by (simp add: extractDataFromText_def)

lemma extractDataFromText_rows:
  "nonblank_lines text \<noteq> [] \<Longrightarrow>
   fst (extractDataFromText eng con text patterns) =
     Inr (map (\<lambda>(i, l). row_set (row_set (fst (apply_patterns eng (own (fst (parsePatterns eng con patterns))) l))
                                   line_number_key (toString (i + 1)))
                          raw_text_key l)
            (filter (\<lambda>(i, l). matched eng (own (fst (parsePatterns eng con patterns))) l)
               (enumerate 0 (nonblank_lines text))))"
  by (simp add: extractDataFromText_def Let_def case_prod_unfold foldl_line_step)

lemma trim_eq_Nil: "trim s = [] \<longleftrightarrow> (\<forall>c \<in> set s. is_white_space c)"
proof
  assume "trim s = []"
  then have "\<forall>c \<in> set (dropWhile is_white_space s). is_white_space c"
    by (simp add: trim_def dropWhile_eq_Nil_conv)
  then have "dropWhile is_white_space s = []"
    using hd_dropWhile [of is_white_space s] hd_in_set [of "dropWhile is_white_space s"] by blast
  then show "\<forall>c \<in> set s. is_white_space c" by (simp add: dropWhile_eq_Nil_conv)
next
  assume "\<forall>c \<in> set s. is_white_space c"
  then show "trim s = []" by (auto simp: trim_def dest: set_dropWhileD)
qed

lemma dot_plus_nonblank:
  assumes "trim line \<noteq> []"
  shows "\<exists>m. dot_plus line = Some (Match m [Some m]) \<and> m \<noteq> [] \<and>
             m = takeWhile (\<lambda>c. \<not> is_line_terminator c) (dropWhile is_line_terminator line)"
proof -
  from assms obtain c where c: "c \<in> set line" "\<not> is_white_space c"
    by (auto simp: trim_eq_Nil)
  then have "\<not> is_line_terminator c" by (simp add: is_white_space_def)
  with c have ne: "dropWhile is_line_terminator line \<noteq> []"
    by (auto simp: dropWhile_eq_Nil_conv)
  then have "\<not> is_line_terminator (hd (dropWhile is_line_terminator line))"
    by (rule hd_dropWhile)
  with ne have "takeWhile (\<lambda>c. \<not> is_line_terminator c) (dropWhile is_line_terminator line) \<noteq> []"
    by (cases "dropWhile is_line_terminator line") auto
  then show ?thesis by (simp add: dot_plus_def Let_def)
qed

lemma takeWhile_dropWhile_id:
  "\<forall>c \<in> set line. \<not> is_line_terminator c \<Longrightarrow>
   takeWhile (\<lambda>c. \<not> is_line_terminator c) (dropWhile is_line_terminator line) = line"
  by (cases line) auto

lemma match_value_cases:
  "match_value m =
     (case groups m of
        Some g # rest \<Rightarrow> if g = [] then whole m else g
      | _ \<Rightarrow> whole m)"
  by (cases m) (auto simp: match_value_def element_def js_or_def split: list.splits option.splits)

section \<open>The reserved keys, and the fields of a specification line\<close>


lemma reserved_distinct:
  "line_number_key \<noteq> proto_key" "raw_text_key \<noteq> proto_key" "raw_text_key \<noteq> line_number_key"
  "text_key \<noteq> line_number_key" "text_key \<noteq> raw_text_key"
  by (simp_all add: line_number_key_def raw_text_key_def proto_key_def text_key_def js_def)


lemma split_on_no_sep: "sep \<notin> set s \<Longrightarrow> split_on sep s = [s]"
  by (induction s) (auto simp: Let_def)

lemma split_on_first_sep:
  "sep \<notin> set a \<Longrightarrow> split_on sep (a @ sep # b) = a # split_on sep b"
  by (induction a) (auto simp: Let_def)

lemma line_fields_no_colon: "0x3A \<notin> set line \<Longrightarrow> line_fields line = None"
  by (simp add: line_fields_def split_on_no_sep element_def)

lemma line_fields_one_colon:
  "0x3A \<notin> set a \<Longrightarrow> 0x3A \<notin> set b \<Longrightarrow>
   line_fields (a @ 0x3A # b) =
     (if trim a \<noteq> [] \<and> trim b \<noteq> [] then Some (trim a, trim b) else None)"
  by (simp add: line_fields_def split_on_first_sep split_on_no_sep element_def)

lemma line_fields_two_colons:
  "0x3A \<notin> set a \<Longrightarrow> 0x3A \<notin> set b \<Longrightarrow>
   line_fields (a @ 0x3A # b @ 0x3A # c) =
     (if trim a \<noteq> [] \<and> trim b \<noteq> [] then Some (trim a, trim b) else None)"
  using split_on_not_Nil [of "0x3A" c]
  by (cases "split_on 0x3A c") (simp_all add: line_fields_def split_on_first_sep element_def)

lemma set_split_on:
  "(\<forall>p \<in> set (split_on sep s). \<forall>c \<in> set p. P c) \<longleftrightarrow> (\<forall>c \<in> set s. c \<noteq> sep \<longrightarrow> P c)"
proof (induction s)
  case Nil
  then show ?case by simp
next
  case (Cons x s)
  from split_on_not_Nil [of sep s] obtain p ps where ps: "split_on sep s = p # ps"
    by (cases "split_on sep s") auto
  with Cons show ?case by (auto simp: Let_def)
qed

lemma nonblank_lines_empty_iff:
  "nonblank_lines text = [] \<longleftrightarrow> (\<forall>c \<in> set text. is_white_space c)"
proof -
  have "nonblank_lines text = [] \<longleftrightarrow> (\<forall>p \<in> set (split_on 0x0A text). \<forall>c \<in> set p. is_white_space c)"
    by (simp add: nonblank_lines_def filter_empty_conv trim_eq_Nil)
  also have "\<dots> \<longleftrightarrow> (\<forall>c \<in> set text. c \<noteq> 0x0A \<longrightarrow> is_white_space c)"
    by (rule set_split_on)
  also have "\<dots> \<longleftrightarrow> (\<forall>c \<in> set text. is_white_space c)"
    by (auto simp: is_white_space_def is_line_terminator_def)
  finally show ?thesis .
qed

section \<open>Evaluation of the worked examples\<close>

lemmas string_eval = js_def nonblank_lines_def trim_def is_white_space_def is_line_terminator_def
  cell_def cells_def element_def js_or_def Let_def

lemmas object_eval = define_own_def array_index_def dec_val_def toString.simps proto_key_def
  row_set_def

lemmas parser_eval = parsePatterns_def parse_step_def line_fields_def new_RegExp_def patterns_set_def
  RegExp_prototype_accessors_def warning_def text_key_def default_regexp_def

lemmas engine_eval = sample_engine_def sample_exec_def parse_fragment_def is_lit_def ci_eq_def

lemmas extractor_eval = extractDataFromText_def line_step_def apply_patterns_def pattern_step_def
  String_match_def dot_plus_def match_value_def line_number_key_def raw_text_key_def

section \<open>The claims\<close>

subsection \<open>C1: the two fields of a specification line\<close>

text \<open>
  C1. The claim takes the pattern to be all that follows the first colon of the line.
  The parser splits the line at every colon and keeps the first two pieces, so a
  pattern that contains a colon is cut at that colon: in \<^verbatim>\<open>url: (http://x)\<close> the
  pattern handed to the constructor is \<^verbatim>\<open>(http\<close>, in \<^verbatim>\<open>t: a:b\<close> it is \<^verbatim>\<open>a\<close>,
  and \<^verbatim>\<open>t: :b\<close> is discarded although its remainder \<^verbatim>\<open>:b\<close> is not empty. The
  lemmas \<open>line_fields_one_colon\<close> and \<open>line_fields_two_colons\<close> give the general
  behaviour.
\<close>

theorem pattern_is_cut_at_second_colon:
  "line_fields (js ''url: (http://x)'') = Some (js ''url'', js ''(http'') \<and>
   line_fields (js ''t: a:b'') = Some (js ''t'', js ''a'') \<and>
   own (fst (parsePatterns sample_engine [] (js ''t: a:b''))) = [(js ''t'', RegExp (js ''a'') (js ''i''))] \<and>
   line_fields (js ''t: :b'') = None \<and>
   own (fst (parsePatterns sample_engine [] (js ''t: :b''))) = [(text_key, default_regexp)]"
  by (simp add: parser_eval engine_eval string_eval object_eval)

subsection \<open>C2: the recorded value\<close>

text \<open>
  C2, amended. For every entry of the pattern map that matches the line, the value
  recorded under its field name is the text of the first capture group when the regular
  expression has such a group, the group took part in the match and its text is not
  empty; in every other case (no group, a group that took no part, a group that
  captured the empty string) it is the whole matched substring. The finished row holds
  that value under the field name unless the field is named \<^verbatim>\<open>line_number\<close> or
  \<^verbatim>\<open>raw_text\<close>.
\<close>

theorem recorded_value:
  "(key, regex) \<in> set (own (fst (parsePatterns eng con patterns))) \<Longrightarrow>
   String_match eng line regex = Some m \<Longrightarrow>
   map_of (fst (apply_patterns eng (own (fst (parsePatterns eng con patterns))) line)) key =
     Some (case groups m of
             Some g # rest \<Rightarrow> if g = [] then whole m else g
           | _ \<Rightarrow> whole m) \<and>
   (key \<noteq> line_number_key \<and> key \<noteq> raw_text_key \<longrightarrow>
    map_of (row_set (row_set (fst (apply_patterns eng (own (fst (parsePatterns eng con patterns))) line))
                       line_number_key n) raw_text_key line) key =
      Some (case groups m of
              Some g # rest \<Rightarrow> if g = [] then whole m else g
            | _ \<Rightarrow> whole m))"
proof -
  assume k: "(key, regex) \<in> set (own (fst (parsePatterns eng con patterns)))"
    and m: "String_match eng line regex = Some m"
  let ?row = "fst (apply_patterns eng (own (fst (parsePatterns eng con patterns))) line)"
  have inner: "map_of ?row key =
     Some (case groups m of Some g # rest \<Rightarrow> if g = [] then whole m else g | _ \<Rightarrow> whole m)"
    using map_of_apply_patterns [of "own (fst (parsePatterns eng con patterns))" key regex eng line]
      parsePatterns_inv [of eng con patterns] k m
    by (simp add: match_value_cases)
  have "map_of (row_set (row_set ?row line_number_key n) raw_text_key line) key = map_of ?row key"
    if "key \<noteq> line_number_key" "key \<noteq> raw_text_key"
    using that by (simp add: map_of_row_set reserved_distinct)
  with inner show ?thesis by simp
qed

text \<open>
  C2, amended, on the specification \<^verbatim>\<open>v: a(b)\<close> and the line \<^verbatim>\<open>zab\<close>: the match
  is \<^verbatim>\<open>ab\<close>, the group holds \<^verbatim>\<open>b\<close>, and \<^verbatim>\<open>b\<close> is recorded.
\<close>

theorem recorded_value_witness:
  "(js ''v'', RegExp (js ''a(b)'') (js ''i'')) \<in> set (own (fst (parsePatterns sample_engine [] (js ''v: a(b)'')))) \<and>
   String_match sample_engine (js ''zab'') (RegExp (js ''a(b)'') (js ''i'')) =
     Some (Match (js ''ab'') [Some (js ''b'')]) \<and>
   map_of (fst (apply_patterns sample_engine (own (fst (parsePatterns sample_engine [] (js ''v: a(b)'')))) (js ''zab'')))
     (js ''v'') = Some (js ''b'')"
proof -
  have k: "(js ''v'', RegExp (js ''a(b)'') (js ''i'')) \<in> set (own (fst (parsePatterns sample_engine [] (js ''v: a(b)''))))"
    by (simp add: parser_eval engine_eval string_eval object_eval)
  have m: "String_match sample_engine (js ''zab'') (RegExp (js ''a(b)'') (js ''i'')) =
     Some (Match (js ''ab'') [Some (js ''b'')])"
    by (simp add: extractor_eval parser_eval engine_eval string_eval)
  have b: "js ''b'' \<noteq> []" by (simp add: js_def)
  from recorded_value [OF k m, THEN conjunct1] b k m show ?thesis by simp
qed

text \<open>
  C2 as stated fails on the specification \<^verbatim>\<open>v: x()\<close> and the text \<^verbatim>\<open>x\<close>: the
  regular expression has a first capture group, the group captures the empty string,
  and the value recorded is the whole match \<^verbatim>\<open>x\<close>.
\<close>

theorem empty_capture_gives_whole_match:
  "own (fst (parsePatterns sample_engine [] (js ''v: x()''))) = [(js ''v'', RegExp (js ''x()'') (js ''i''))] \<and>
   String_match sample_engine (js ''x'') (RegExp (js ''x()'') (js ''i'')) = Some (Match (js ''x'') [Some []]) \<and>
   fst (apply_patterns sample_engine [(js ''v'', RegExp (js ''x()'') (js ''i''))] (js ''x'')) = [(js ''v'', js ''x'')] \<and>
   map_of [(js ''v'', js ''x'')] (js ''v'') \<noteq> Some [] \<and>
   fst (extractDataFromText sample_engine [] (js ''x'') (js ''v: x()'')) =
     Inr [[(js ''v'', js ''x''), (line_number_key, js ''1''), (raw_text_key, js ''x'')]]"
  by (simp add: extractor_eval parser_eval engine_eval string_eval object_eval)

subsection \<open>C3: empty input\<close>

text \<open>
  C3. When no line of the input text is left after the blank lines are discarded
  (by \<open>nonblank_lines_empty_iff\<close>: when the text holds white space only), the pattern
  extractor rejects with the error \<^verbatim>\<open>Empty file\<close> and the delimited-text extractor
  with \<^verbatim>\<open>Empty CSV file\<close>. No result sequence is returned, the specification is
  not parsed and the console is left as it was.
\<close>

theorem empty_input_is_an_error:
  "nonblank_lines text = [] \<Longrightarrow>
   extractDataFromText eng con text patterns = (Inl (Error (js ''Empty file'')), con) \<and>
   extractDataFromCsv text = Inl (Error (js ''Empty CSV file''))"
  by (simp add: extractDataFromText_empty extractDataFromCsv_empty)

text \<open>
  C3 on the text of a space, a line feed and a tab, with a specification whose pattern
  is invalid: nothing is written to the console, since the parser is not reached.
\<close>

theorem empty_input_is_an_error_witness:
  "nonblank_lines [0x20, 0x0A, 0x09] = [] \<and>
   extractDataFromText sample_engine [] [0x20, 0x0A, 0x09] (js ''k: ('') =
     (Inl (Error (js ''Empty file'')), []) \<and>
   extractDataFromCsv [0x20, 0x0A, 0x09] = Inl (Error (js ''Empty CSV file''))"
proof -
  have h: "nonblank_lines [0x20, 0x0A, 0x09] = []"
    by (simp add: string_eval)
  show ?thesis
    using h empty_input_is_an_error [OF h, of sample_engine "[]" "js ''k: (''"] by simp
qed

subsection \<open>C4: the default pattern\<close>

text \<open>
  C4, amended. When no entry of the specification is compiled, the pattern map has
  exactly one entry, \<^verbatim>\<open>text\<close> with \<^verbatim>\<open>/(.+)/\<close>. That pattern matches every
  non-blank line; the match, which is also the first group and the value recorded, is
  the first maximal run of code units other than line terminators, and it is the whole
  line, untrimmed, when the line holds no line terminator (a carriage return, U+2028
  or U+2029).
\<close>

theorem default_pattern_when_nothing_compiles:
  "compiled_entries eng patternString = [] \<Longrightarrow> trim line \<noteq> [] \<Longrightarrow>
   own (fst (parsePatterns eng con patternString)) = [(text_key, default_regexp)] \<and>
   (\<exists>m. String_match eng line default_regexp = Some (Match m [Some m]) \<and>
        m = takeWhile (\<lambda>c. \<not> is_line_terminator c) (dropWhile is_line_terminator line) \<and>
        m \<noteq> [] \<and>
        match_value (Match m [Some m]) = m \<and>
        (list_all (\<lambda>c. \<not> is_line_terminator c) line \<longrightarrow> m = line))"
proof -
  assume c: "compiled_entries eng patternString = []" and t: "trim line \<noteq> []"
  from c have own: "own (fst (parsePatterns eng con patternString)) = [(text_key, default_regexp)]"
    by (simp add: fst_parsePatterns)
  from dot_plus_nonblank [OF t] obtain m where
    m: "dot_plus line = Some (Match m [Some m])" "m \<noteq> []"
       "m = takeWhile (\<lambda>c. \<not> is_line_terminator c) (dropWhile is_line_terminator line)"
    by blast
  have v: "match_value (Match m [Some m]) = m"
    using m(2) by (simp add: match_value_cases)
  have full: "list_all (\<lambda>c. \<not> is_line_terminator c) line \<longrightarrow> m = line"
    using m(3) takeWhile_dropWhile_id [of line] by (simp add: list_all_iff)
  from m v full have "String_match eng line default_regexp = Some (Match m [Some m]) \<and>
        m = takeWhile (\<lambda>c. \<not> is_line_terminator c) (dropWhile is_line_terminator line) \<and>
        m \<noteq> [] \<and> match_value (Match m [Some m]) = m \<and>
        (list_all (\<lambda>c. \<not> is_line_terminator c) line \<longrightarrow> m = line)"
    by (simp add: String_match_def)
  with own show ?thesis by blast
qed

text \<open>
  C4, amended, on a specification of one line without a colon and one line with an
  invalid pattern, and on the line \<^verbatim>\<open> ab\<close>, which is captured with its leading
  space.
\<close>

theorem default_pattern_when_nothing_compiles_witness:
  "compiled_entries sample_engine (js ''no colon here'' @ [0x0A] @ js ''k: ('') = [] \<and>
   trim (js '' ab'') \<noteq> [] \<and>
   own (fst (parsePatterns sample_engine [] (js ''no colon here'' @ [0x0A] @ js ''k: (''))) =
     [(text_key, default_regexp)] \<and>
   String_match sample_engine (js '' ab'') default_regexp = Some (Match (js '' ab'') [Some (js '' ab'')]) \<and>
   match_value (Match (js '' ab'') [Some (js '' ab'')]) = js '' ab''"
proof -
  have c: "compiled_entries sample_engine (js ''no colon here'' @ [0x0A] @ js ''k: ('') = []"
    by (simp add: compiled_entries_def line_entry_def line_fields_def engine_eval string_eval)
  have t: "trim (js '' ab'') \<noteq> []"
    by (simp add: string_eval)
  have full: "list_all (\<lambda>c. \<not> is_line_terminator c) (js '' ab'')"
    by (simp add: string_eval)
  from default_pattern_when_nothing_compiles [OF c t, of "[]"] full
  show ?thesis using c t by auto
qed

text \<open>
  C4 as stated fails on the empty specification and the text \<^verbatim>\<open>a\rb\<close>, one line
  with a carriage return inside: the default pattern captures \<^verbatim>\<open>a\<close>, not the line.
\<close>

theorem default_pattern_stops_at_carriage_return:
  "compiled_entries sample_engine [] = [] \<and>
   trim [0x61, 0x0D, 0x62] \<noteq> [] \<and>
   own (fst (parsePatterns sample_engine [] [])) = [(text_key, default_regexp)] \<and>
   String_match sample_engine [0x61, 0x0D, 0x62] default_regexp = Some (Match [0x61] [Some [0x61]]) \<and>
   [0x61] \<noteq> [0x61, 0x0D, 0x62 :: code_unit] \<and>
   fst (extractDataFromText sample_engine [] [0x61, 0x0D, 0x62] []) =
     Inr [[(text_key, [0x61]), (line_number_key, js ''1''), (raw_text_key, [0x61, 0x0D, 0x62])]]"
  by (simp add: compiled_entries_def line_entry_def extractor_eval parser_eval engine_eval string_eval object_eval)

subsection \<open>C5: the keys of the pattern map\<close>

text \<open>
  C5, amended. When at least one line of the specification gives, by the parser's
  own split, a field name and a pattern that compiles, and no such field name is
  \<^verbatim>\<open>__proto__\<close>, the keys of the pattern map are exactly the field names of those
  lines, each once, and the default entry (\<^verbatim>\<open>text\<close> with \<^verbatim>\<open>/(.+)/\<close>) is not in the
  map: the key \<^verbatim>\<open>text\<close> is there only when a compiled line is named so.
\<close>

theorem parsed_keys_are_compiled_names:
  "compiled_entries eng patternString \<noteq> [] \<Longrightarrow>
   proto_key \<notin> set (map fst (compiled_entries eng patternString)) \<Longrightarrow>
   set (map fst (own (fst (parsePatterns eng con patternString)))) =
     set (map fst (compiled_entries eng patternString)) \<and>
   distinct (map fst (own (fst (parsePatterns eng con patternString)))) \<and>
   (text_key, default_regexp) \<notin> set (own (fst (parsePatterns eng con patternString)))"
proof -
  let ?cs = "compiled_entries eng patternString"
  let ?obj = "foldl (\<lambda>obj e. define_own (fst e) (snd e) obj) [] ?cs"
  assume ne: "?cs \<noteq> []" and np: "proto_key \<notin> set (map fst ?cs)"
  from np have "foldl assign_entry \<lparr>own = [], proto_regexp = False\<rparr> ?cs =
                  \<lparr>own = ?obj, proto_regexp = False\<rparr>"
    using foldl_assign_entry_plain [of "\<lparr>own = [], proto_regexp = False\<rparr>" ?cs] by simp
  moreover have keys: "set (map fst ?obj) = set (map fst ?cs)"
    using keys_foldl_define_own [of "[]" ?cs] by simp
  moreover from keys ne have "?obj \<noteq> []" by (cases ?cs) auto
  ultimately have own: "own (fst (parsePatterns eng con patternString)) = ?obj"
    by (simp add: fst_parsePatterns Let_def)
  have "(text_key, default_regexp) \<notin> set ?cs"
    using compiled_entries_flags [of text_key default_regexp eng patternString]
    by (auto simp: default_regexp_def js_def)
  with set_foldl_define_own [of "[]" ?cs] have "(text_key, default_regexp) \<notin> set ?obj" by auto
  with own keys parsePatterns_inv [of eng con patternString] show ?thesis
    by (simp del: set_map)
qed

text \<open>
  C5, amended, on the two lines \<^verbatim>\<open>b: a\<close> and \<^verbatim>\<open>c: (\<close>, of which the second does
  not compile.
\<close>

theorem parsed_keys_are_compiled_names_witness:
  "compiled_entries sample_engine (js ''b: a'' @ [0x0A] @ js ''c: ('') = [(js ''b'', RegExp (js ''a'') (js ''i''))] \<and>
   proto_key \<noteq> js ''b'' \<and>
   set (map fst (own (fst (parsePatterns sample_engine [] (js ''b: a'' @ [0x0A] @ js ''c: (''))))) = {js ''b''} \<and>
   (text_key, default_regexp) \<notin> set (own (fst (parsePatterns sample_engine [] (js ''b: a'' @ [0x0A] @ js ''c: (''))))"
proof -
  have c: "compiled_entries sample_engine (js ''b: a'' @ [0x0A] @ js ''c: ('') = [(js ''b'', RegExp (js ''a'') (js ''i''))]"
    by (simp add: compiled_entries_def line_entry_def line_fields_def engine_eval string_eval)
  have n: "proto_key \<noteq> js ''b''"
    by (simp add: proto_key_def js_def)
  have h1: "compiled_entries sample_engine (js ''b: a'' @ [0x0A] @ js ''c: ('') \<noteq> []"
    unfolding c by simp
  have h2: "proto_key \<notin> set (map fst (compiled_entries sample_engine (js ''b: a'' @ [0x0A] @ js ''c: ('')))"
    unfolding c using n by simp
  from parsed_keys_are_compiled_names [OF h1 h2, of "[]"] c n show ?thesis
    by simp
qed

text \<open>
  C5 as stated fails on the specification \<^verbatim>\<open>__proto__: a\<close>: the line is well
  formed and its pattern compiles, yet the map has the single key \<^verbatim>\<open>text\<close> with the
  default pattern.
\<close>

theorem proto_entry_is_lost:
  "compiled_entries sample_engine (js ''__proto__: a'') = [(proto_key, RegExp (js ''a'') (js ''i''))] \<and>
   own (fst (parsePatterns sample_engine [] (js ''__proto__: a''))) = [(text_key, default_regexp)] \<and>
   set (map fst (own (fst (parsePatterns sample_engine [] (js ''__proto__: a''))))) \<noteq>
     set (map fst (compiled_entries sample_engine (js ''__proto__: a''))) \<and>
   text_key \<in> set (map fst (own (fst (parsePatterns sample_engine [] (js ''__proto__: a'')))))"
  by (simp add: compiled_entries_def line_entry_def parser_eval engine_eval string_eval object_eval)

subsection \<open>C6: lines without a match\<close>

text \<open>
  C6. The result has at most as many rows as the text has non-blank lines, and the
  \<^verbatim>\<open>line_number\<close> fields of its rows are, in order, the 1-based positions of
  exactly those non-blank lines that some entry of the pattern map matches: a line
  that no entry matches contributes no row.
\<close>

theorem unmatched_lines_give_no_row:
  "fst (extractDataFromText eng con text patterns) = Inr rows \<Longrightarrow>
   length rows \<le> length (nonblank_lines text) \<and>
   map (\<lambda>row. map_of row line_number_key) rows =
     map (\<lambda>(i, l). Some (toString (i + 1)))
       (filter (\<lambda>(i, l). matched eng (own (fst (parsePatterns eng con patterns))) l)
          (enumerate 0 (nonblank_lines text)))"
proof -
  assume r: "fst (extractDataFromText eng con text patterns) = Inr rows"
  let ?es = "own (fst (parsePatterns eng con patterns))"
  let ?sel = "filter (\<lambda>(i, l). matched eng ?es l) (enumerate 0 (nonblank_lines text))"
  from r have ne: "nonblank_lines text \<noteq> []"
    by (auto simp: extractDataFromText_empty)
  from r extractDataFromText_rows [OF ne, of eng con patterns]
  have rows: "rows = map (\<lambda>(i, l). row_set (row_set (fst (apply_patterns eng ?es l))
                                  line_number_key (toString (i + 1))) raw_text_key l) ?sel"
    by simp
  have "length rows = length ?sel" by (simp add: rows)
  also have "\<dots> \<le> length (enumerate 0 (nonblank_lines text))" by (rule length_filter_le)
  finally have len: "length rows \<le> length (nonblank_lines text)" by simp
  have key: "map_of (row_set (row_set row line_number_key v) raw_text_key l) line_number_key = Some v"
    for row :: row and v l
    by (simp add: map_of_row_set line_number_key_def raw_text_key_def proto_key_def js_def)
  have "map (\<lambda>row. map_of row line_number_key) rows = map (\<lambda>(i, l). Some (toString (i + 1))) ?sel"
    by (simp add: rows key case_prod_unfold comp_def)
  with len show ?thesis by simp
qed

text \<open>
  C6 on the text of the lines \<^verbatim>\<open>b\<close> and \<^verbatim>\<open>a\<close> with the specification
  \<^verbatim>\<open>k: a\<close>: the first line has no match, and the one row comes from line 2.
\<close>

theorem unmatched_lines_give_no_row_witness:
  "fst (extractDataFromText sample_engine [] (js ''b'' @ [0x0A] @ js ''a'') (js ''k: a'')) =
     Inr [[(js ''k'', js ''a''), (line_number_key, js ''2''), (raw_text_key, js ''a'')]] \<and>
   nonblank_lines (js ''b'' @ [0x0A] @ js ''a'') = [js ''b'', js ''a''] \<and>
   own (fst (parsePatterns sample_engine [] (js ''k: a''))) = [(js ''k'', RegExp (js ''a'') (js ''i''))] \<and>
   \<not> matched sample_engine [(js ''k'', RegExp (js ''a'') (js ''i''))] (js ''b'') \<and>
   matched sample_engine [(js ''k'', RegExp (js ''a'') (js ''i''))] (js ''a'') \<and>
   length [[(js ''k'', js ''a''), (line_number_key, js ''2''), (raw_text_key, js ''a'')]]
     \<le> length (nonblank_lines (js ''b'' @ [0x0A] @ js ''a'')) \<and>
   map (\<lambda>row. map_of row line_number_key)
       [[(js ''k'', js ''a''), (line_number_key, js ''2''), (raw_text_key, js ''a'')]] =
     [Some (js ''2'')]"
proof -
  have h: "fst (extractDataFromText sample_engine [] (js ''b'' @ [0x0A] @ js ''a'') (js ''k: a'')) =
     Inr [[(js ''k'', js ''a''), (line_number_key, js ''2''), (raw_text_key, js ''a'')]]"
    by (simp add: extractor_eval parser_eval engine_eval string_eval object_eval)
  have l: "nonblank_lines (js ''b'' @ [0x0A] @ js ''a'') = [js ''b'', js ''a'']"
    by (simp add: string_eval)
  have p: "own (fst (parsePatterns sample_engine [] (js ''k: a''))) = [(js ''k'', RegExp (js ''a'') (js ''i''))]"
    by (simp add: parser_eval engine_eval string_eval object_eval)
  have m: "\<not> matched sample_engine [(js ''k'', RegExp (js ''a'') (js ''i''))] (js ''b'')"
    "matched sample_engine [(js ''k'', RegExp (js ''a'') (js ''i''))] (js ''a'')"
    by (simp_all add: matched_def extractor_eval parser_eval engine_eval string_eval)
  have t2: "toString (Suc (Suc 0)) = js ''2''"
    by (simp add: toString.simps js_def)
  have sel: "map (\<lambda>(i, l). Some (toString (i + 1)))
       (filter (\<lambda>(i, l). matched sample_engine (own (fst (parsePatterns sample_engine [] (js ''k: a'')))) l)
          (enumerate 0 (nonblank_lines (js ''b'' @ [0x0A] @ js ''a'')))) = [Some (js ''2'')]"
    unfolding l p by (simp add: m t2)
  from unmatched_lines_give_no_row [OF h]
  have c: "length [[(js ''k'', js ''a''), (line_number_key, js ''2''), (raw_text_key, js ''a'')]]
             \<le> length (nonblank_lines (js ''b'' @ [0x0A] @ js ''a'')) \<and>
           map (\<lambda>row. map_of row line_number_key)
               [[(js ''k'', js ''a''), (line_number_key, js ''2''), (raw_text_key, js ''a'')]] =
             [Some (js ''2'')]"
    by (simp only: sel)
  from h l p m c show ?thesis by blast
qed

subsection \<open>C7: one row for each line after the header\<close>

text \<open>
  C7, amended. With at least one non-blank line the delimited-text extractor returns
  one row for each line after the header, in order (so one row less than there are
  non-blank lines). The row maps the header cell of a column to the cell of the line in
  that column, or to the empty string when the line has no such cell, for every column
  whose header cell is not \<^verbatim>\<open>__proto__\<close> and does not occur again in a later
  column.
\<close>

theorem csv_one_row_per_line:
  "nonblank_lines text = header # rest \<Longrightarrow>
   \<exists>rows. extractDataFromCsv text = Inr rows \<and>
     length rows = length (nonblank_lines text) - 1 \<and>
     (\<forall>j i. j < length rest \<and> i < length (cells header) \<and>
            cells header ! i \<noteq> proto_key \<and>
            cells header ! i \<notin> set (drop (Suc i) (cells header)) \<longrightarrow>
        map_of (rows ! j) (cells header ! i) =
          Some (if i < length (cells (rest ! j)) then cells (rest ! j) ! i else []))"
proof -
  assume l: "nonblank_lines text = header # rest"
  let ?rows = "map (\<lambda>line. csv_row (cells header) (cells line)) rest"
  have "extractDataFromCsv text = Inr ?rows"
    using l by (rule extractDataFromCsv_rows)
  moreover have "length ?rows = length (nonblank_lines text) - 1"
    by (simp add: l)
  moreover have "map_of (?rows ! j) (cells header ! i) =
          Some (if i < length (cells (rest ! j)) then cells (rest ! j) ! i else [])"
    if "j < length rest" "i < length (cells header)" "cells header ! i \<noteq> proto_key"
       "cells header ! i \<notin> set (drop (Suc i) (cells header))" for j i
    using that map_of_csv_row [of i "cells header" "cells (rest ! j)"]
    by (simp add: js_or_element)
  ultimately show ?thesis by blast
qed

text \<open>
  C7, amended, on the header \<^verbatim>\<open>a,b\<close> and the line \<^verbatim>\<open> "1" \<close>: the cell is trimmed and
  loses its quotes, the missing second cell becomes the empty string.
\<close>

theorem csv_one_row_per_line_witness:
  "nonblank_lines (js ''a,b'' @ [0x0A] @ js '' \"1\" '') = [js ''a,b'', js '' \"1\" ''] \<and>
   cells (js ''a,b'') = [js ''a'', js ''b''] \<and>
   cells (js '' \"1\" '') = [js ''1''] \<and>
   extractDataFromCsv (js ''a,b'' @ [0x0A] @ js '' \"1\" '') = Inr [[(js ''a'', js ''1''), (js ''b'', [])]] \<and>
   map_of [(js ''a'', js ''1''), (js ''b'', [])] (js ''a'') = Some (js ''1'') \<and>
   map_of [(js ''a'', js ''1''), (js ''b'', [])] (js ''b'') = Some []"
proof -
  have l: "nonblank_lines (js ''a,b'' @ [0x0A] @ js '' \"1\" '') = [js ''a,b'', js '' \"1\" '']"
    by (simp add: string_eval)
  have h: "cells (js ''a,b'') = [js ''a'', js ''b'']"
    by (simp add: string_eval)
  have v: "cells (js '' \"1\" '') = [js ''1'']"
    by (simp add: string_eval)
  have np: "js ''a'' \<noteq> proto_key" "js ''b'' \<noteq> proto_key" "js ''a'' \<noteq> js ''b''"
    by (simp_all add: proto_key_def js_def)
  from csv_one_row_per_line [OF l] obtain rows where
    r: "extractDataFromCsv (js ''a,b'' @ [0x0A] @ js '' \"1\" '') = Inr rows"
    and n: "length rows = length (nonblank_lines (js ''a,b'' @ [0x0A] @ js '' \"1\" '')) - 1"
    and f: "\<And>j i. j < length [js '' \"1\" ''] \<and> i < length (cells (js ''a,b'')) \<and>
            cells (js ''a,b'') ! i \<noteq> proto_key \<and>
            cells (js ''a,b'') ! i \<notin> set (drop (Suc i) (cells (js ''a,b''))) \<Longrightarrow>
        map_of (rows ! j) (cells (js ''a,b'') ! i) =
          Some (if i < length (cells ([js '' \"1\" ''] ! j)) then cells ([js '' \"1\" ''] ! j) ! i else [])"
    by blast
  have e: "extractDataFromCsv (js ''a,b'' @ [0x0A] @ js '' \"1\" '') = Inr [[(js ''a'', js ''1''), (js ''b'', [])]]"
    by (simp add: extractDataFromCsv_def csv_row_def string_eval object_eval)
  from r e have rows: "rows = [[(js ''a'', js ''1''), (js ''b'', [])]]" by simp
  from f [of 0 0] np have a: "map_of (rows ! 0) (js ''a'') = Some (js ''1'')"
    unfolding h by (simp add: v)
  from f [of 0 1] np have b: "map_of (rows ! 0) (js ''b'') = Some []"
    unfolding h by (simp add: v)
  from l h v e a b show ?thesis unfolding rows by simp
qed

text \<open>
  C7 as stated fails on the header \<^verbatim>\<open>a,a\<close> and the line \<^verbatim>\<open>1,2\<close>: the row maps
  the header cell of column 0 to \<^verbatim>\<open>2\<close>, not to the cell \<^verbatim>\<open>1\<close> of column 0.
\<close>

theorem duplicate_header_keeps_last_value:
  "cells (js ''a,a'') = [js ''a'', js ''a''] \<and> cells (js ''1,2'') = [js ''1'', js ''2''] \<and>
   extractDataFromCsv (js ''a,a'' @ [0x0A] @ js ''1,2'') = Inr [[(js ''a'', js ''2'')]] \<and>
   map_of [(js ''a'', js ''2'')] (cells (js ''a,a'') ! 0) \<noteq> Some (cells (js ''1,2'') ! 0)"
  by (simp add: extractDataFromCsv_def csv_row_def string_eval object_eval)

subsection \<open>C9: the order of the fields of a row\<close>




subsection \<open>C10: the keys of a row of the delimited-text extractor\<close>

text \<open>
  C10, amended. The keys of every row are exactly the header cells other than
  \<^verbatim>\<open>__proto__\<close>, each once; the row is the one built from the cells of its line up
  to the number of header cells, so further cells are dropped; and where header cells
  are equal the row holds, under that name, the cell of the last of their columns.
\<close>

theorem csv_row_keys:
  "nonblank_lines text = header # rest \<Longrightarrow> extractDataFromCsv text = Inr rows \<Longrightarrow> j < length rows \<Longrightarrow>
   set (map fst (rows ! j)) = set (cells header) - {proto_key} \<and>
   distinct (map fst (rows ! j)) \<and>
   rows ! j = csv_row (cells header) (take (length (cells header)) (cells (rest ! j))) \<and>
   (\<forall>i i'. i \<le> i' \<and> i' < length (cells header) \<and> cells header ! i = cells header ! i' \<and>
           cells header ! i' \<noteq> proto_key \<and>
           cells header ! i' \<notin> set (drop (Suc i') (cells header)) \<longrightarrow>
      map_of (rows ! j) (cells header ! i) =
        Some (if i' < length (cells (rest ! j)) then cells (rest ! j) ! i' else []))"
proof -
  assume l: "nonblank_lines text = header # rest" and r: "extractDataFromCsv text = Inr rows"
    and j: "j < length rows"
  from r extractDataFromCsv_rows [OF l]
  have rows: "rows = map (\<lambda>line. csv_row (cells header) (cells line)) rest" by simp
  with j have row: "rows ! j = csv_row (cells header) (cells (rest ! j))" by simp
  have "map_of (rows ! j) (cells header ! i) =
        Some (if i' < length (cells (rest ! j)) then cells (rest ! j) ! i' else [])"
    if "i' < length (cells header)" "cells header ! i = cells header ! i'"
       "cells header ! i' \<noteq> proto_key" "cells header ! i' \<notin> set (drop (Suc i') (cells header))"
    for i i'
    using that map_of_csv_row [of i' "cells header" "cells (rest ! j)"]
    by (simp add: row js_or_element)
  then show ?thesis
    by (simp add: row keys_csv_row distinct_csv_row csv_row_take del: set_map)
qed

text \<open>
  C10, amended, on the header \<^verbatim>\<open>a,a,b\<close> and the line \<^verbatim>\<open>1,2,3,4\<close>.
\<close>

theorem csv_row_keys_witness:
  "nonblank_lines (js ''a,a,b'' @ [0x0A] @ js ''1,2,3,4'') = [js ''a,a,b'', js ''1,2,3,4''] \<and>
   cells (js ''a,a,b'') = [js ''a'', js ''a'', js ''b''] \<and>
   cells (js ''1,2,3,4'') = [js ''1'', js ''2'', js ''3'', js ''4''] \<and>
   extractDataFromCsv (js ''a,a,b'' @ [0x0A] @ js ''1,2,3,4'') = Inr [[(js ''a'', js ''2''), (js ''b'', js ''3'')]] \<and>
   set (map fst ([[(js ''a'', js ''2''), (js ''b'', js ''3'')]] ! 0)) = set (cells (js ''a,a,b'')) - {proto_key} \<and>
   [[(js ''a'', js ''2''), (js ''b'', js ''3'')]] ! 0 =
     csv_row (cells (js ''a,a,b'')) (take (length (cells (js ''a,a,b''))) (cells ([js ''1,2,3,4''] ! 0)))"
proof -
  have l: "nonblank_lines (js ''a,a,b'' @ [0x0A] @ js ''1,2,3,4'') = [js ''a,a,b'', js ''1,2,3,4'']"
    by (simp add: string_eval)
  have h: "cells (js ''a,a,b'') = [js ''a'', js ''a'', js ''b'']"
    by (simp add: string_eval)
  have v: "cells (js ''1,2,3,4'') = [js ''1'', js ''2'', js ''3'', js ''4'']"
    by (simp add: string_eval)
  have e: "extractDataFromCsv (js ''a,a,b'' @ [0x0A] @ js ''1,2,3,4'') = Inr [[(js ''a'', js ''2''), (js ''b'', js ''3'')]]"
    by (simp add: extractDataFromCsv_def csv_row_def string_eval object_eval)
  have j: "0 < length [[(js ''a'', js ''2''), (js ''b'', js ''3'')]]" by simp
  note keys = csv_row_keys [OF l e j]
  from l h v e keys [THEN conjunct1] keys [THEN conjunct2, THEN conjunct2, THEN conjunct1]
  show ?thesis by (intro conjI)
qed

text \<open>
  C10 as stated fails on the header \<^verbatim>\<open>__proto__,b\<close> and the line \<^verbatim>\<open>1,2\<close>: the
  one key of the row is \<^verbatim>\<open>b\<close>.
\<close>

theorem proto_header_gives_no_key:
  "cells (js ''__proto__,b'') = [proto_key, js ''b''] \<and>
   extractDataFromCsv (js ''__proto__,b'' @ [0x0A] @ js ''1,2'') = Inr [[(js ''b'', js ''2'')]] \<and>
   set (map fst [(js ''b'', js ''2'')]) \<noteq> set (cells (js ''__proto__,b''))"
  by (simp add: extractDataFromCsv_def csv_row_def string_eval object_eval)

end
